theory Spec2Isabelle
  imports Complex_Main "HOL-Library.List_Lexorder" "HOL-Library.Char_ord"
begin

section \<open>The visitor counter of \<^verbatim>\<open>scripts/count_visitors.py\<close>\<close>

text \<open>
  The script keeps one JSON document with a cumulative visitor total and a history of
  finalized days. Each run of \<^verbatim>\<open>cmd_update\<close> reads the document, asks the analytics
  service for every day after \<^verbatim>\<open>last_counted_date\<close> and before today, then for today,
  and writes the document back. The model below follows the script function by
  function. What the script takes from its environment is an argument of the model:
  the calendar date (\<^verbatim>\<open>date.today()\<close>), the clock (\<^verbatim>\<open>datetime.now().isoformat()\<close>),
  the contents of the data file, and the answers of the analytics service.
\<close>

subsection \<open>Calendar dates (\<^verbatim>\<open>datetime.date\<close>)\<close>

text \<open>
  A \<^verbatim>\<open>datetime.date\<close> holds a year, a month and a day of the proleptic Gregorian
  calendar, with the year between 1 and 9999. Comparison is by (year, month, day).
  Adding or subtracting \<^verbatim>\<open>timedelta(days=1)\<close> gives the next or previous calendar day
  and raises \<^verbatim>\<open>OverflowError\<close> outside the range of years.
\<close>

datatype date = Date (year: nat) (month: nat) (day: nat)

datatype error = ValueError | OverflowError

definition is_leap :: "nat \<Rightarrow> bool" where
  "is_leap y = (y mod 4 = 0 \<and> (y mod 100 \<noteq> 0 \<or> y mod 400 = 0))"

definition days_in_month :: "nat \<Rightarrow> nat \<Rightarrow> nat" where
  "days_in_month y m =
     (if m = 2 then (if is_leap y then 29 else 28)
      else if m = 4 \<or> m = 6 \<or> m = 9 \<or> m = 11 then 30 else 31)"

definition valid_date :: "date \<Rightarrow> bool" where
  "valid_date d =
     (1 \<le> year d \<and> year d \<le> 9999 \<and> 1 \<le> month d \<and> month d \<le> 12 \<and>
      1 \<le> day d \<and> day d \<le> days_in_month (year d) (month d))"

definition date_lt :: "date \<Rightarrow> date \<Rightarrow> bool" where
  "date_lt a b =
     (year a < year b \<or>
      (year a = year b \<and> (month a < month b \<or> (month a = month b \<and> day a < day b))))"

definition date_le :: "date \<Rightarrow> date \<Rightarrow> bool" where
  "date_le a b = (a = b \<or> date_lt a b)"

text \<open>\<^verbatim>\<open>d + timedelta(days=1)\<close>\<close>

definition add_day :: "date \<Rightarrow> error + date" where
  "add_day d =
     (if day d < days_in_month (year d) (month d) then Inr (Date (year d) (month d) (day d + 1))
      else if month d < 12 then Inr (Date (year d) (month d + 1) 1)
      else if year d < 9999 then Inr (Date (year d + 1) 1 1)
      else Inl OverflowError)"

text \<open>\<^verbatim>\<open>d - timedelta(days=1)\<close>\<close>

definition sub_day :: "date \<Rightarrow> error + date" where
  "sub_day d =
     (if 1 < day d then Inr (Date (year d) (month d) (day d - 1))
      else if 1 < month d
        then Inr (Date (year d) (month d - 1) (days_in_month (year d) (month d - 1)))
      else if 1 < year d then Inr (Date (year d - 1) 12 31)
      else Inl OverflowError)"


subsection \<open>ISO strings (\<^verbatim>\<open>isoformat\<close>, \<^verbatim>\<open>fromisoformat\<close>)\<close>

text \<open>
  \<^verbatim>\<open>date.isoformat()\<close> is \<^verbatim>\<open>"%04d-%02d-%02d" % (year, month, day)\<close>. Strings are
  compared as Python compares them: lexicographically, character by character
  (the order of \<^verbatim>\<open>List_Lexorder\<close> over \<^verbatim>\<open>Char_ord\<close>).
\<close>

definition digit_char :: "nat \<Rightarrow> char" where
  "digit_char n = ''0123456789'' ! n"

definition pad2 :: "nat \<Rightarrow> string" where
  "pad2 n = [digit_char (n div 10 mod 10), digit_char (n mod 10)]"

definition pad4 :: "nat \<Rightarrow> string" where
  "pad4 n = pad2 (n div 100) @ pad2 (n mod 100)"

definition isoformat :: "date \<Rightarrow> string" where
  "isoformat d = pad4 (year d) @ ''-'' @ pad2 (month d) @ ''-'' @ pad2 (day d)"

text \<open>
  \<^verbatim>\<open>date.fromisoformat\<close> reads the format that \<^verbatim>\<open>isoformat\<close> writes, ten characters
  \<^verbatim>\<open>YYYY-MM-DD\<close>, and raises \<^verbatim>\<open>ValueError\<close> on anything else, also on a day that the
  calendar does not have. (From Python 3.11 on it reads other ISO 8601 forms as well; a
  data file written by the script never holds one.)
\<close>

definition digit_val :: "char \<Rightarrow> nat option" where
  "digit_val c =
     (let n = (of_char c :: nat) in if 48 \<le> n \<and> n \<le> 57 then Some (n - 48) else None)"

definition num2 :: "char \<Rightarrow> char \<Rightarrow> nat option" where
  "num2 a b =
     (case digit_val a of None \<Rightarrow> None
      | Some x \<Rightarrow> (case digit_val b of None \<Rightarrow> None | Some y \<Rightarrow> Some (10 * x + y)))"

definition fromisoformat :: "string \<Rightarrow> error + date" where
  "fromisoformat s =
     (if length s \<noteq> 10 \<or> s ! 4 \<noteq> CHR ''-'' \<or> s ! 7 \<noteq> CHR ''-'' then Inl ValueError
      else case num2 (s ! 0) (s ! 1) of None \<Rightarrow> Inl ValueError | Some c \<Rightarrow>
       (case num2 (s ! 2) (s ! 3) of None \<Rightarrow> Inl ValueError | Some y \<Rightarrow>
       (case num2 (s ! 5) (s ! 6) of None \<Rightarrow> Inl ValueError | Some m \<Rightarrow>
       (case num2 (s ! 8) (s ! 9) of None \<Rightarrow> Inl ValueError | Some d \<Rightarrow>
          (if valid_date (Date (100 * c + y) m d) then Inr (Date (100 * c + y) m d)
           else Inl ValueError)))))"

subsection \<open>The persisted document and the analytics service\<close>

text \<open>
  The data file holds one JSON object. A key that is missing from it is \<open>None\<close> here;
  \<^verbatim>\<open>prev.get(key, default)\<close> is \<open>get_or\<close>. \<^verbatim>\<open>daily_history\<close> is a Python dict from
  ISO date strings to counts, kept as the list of its items in insertion order.
\<close>

type_synonym history = "(string \<times> int) list"

record visitor_data =
  vd_count :: "int option"
  vd_cumulative :: "int option"
  vd_today_visitors :: "int option"
  vd_last_counted_date :: "string option"
  vd_domain :: "string option"
  vd_last_updated :: "string option"
  vd_daily_history :: "history option"

definition get_or :: "'a option \<Rightarrow> 'a \<Rightarrow> 'a" where
  "get_or x dflt = (case x of None \<Rightarrow> dflt | Some v \<Rightarrow> v)"

text \<open>\<^verbatim>\<open>daily_history[k] = v\<close>: an existing key keeps its place, a new key goes last.\<close>

fun dict_set :: "history \<Rightarrow> string \<Rightarrow> int \<Rightarrow> history" where
  "dict_set [] k v = [(k, v)]"
| "dict_set ((k', v') # h) k v =
     (if k' = k then (k', v) # h else (k', v') # dict_set h k v)"

definition INITIAL_CUMULATIVE :: int where
  "INITIAL_CUMULATIVE = 23869"

text \<open>
  \<^verbatim>\<open>load_data\<close>: the document in the data file, or the empty dict when there is no file.
\<close>

definition load_data :: "visitor_data option \<Rightarrow> visitor_data" where
  "load_data file =
     (case file of
        None \<Rightarrow> \<lparr>vd_count = None, vd_cumulative = None, vd_today_visitors = None,
                 vd_last_counted_date = None, vd_domain = None, vd_last_updated = None,
                 vd_daily_history = None\<rparr>
      | Some data \<Rightarrow> data)"

text \<open>
  One request to the analytics service, for a domain and a day, either fails
  (\<^verbatim>\<open>HTTPError\<close>, \<^verbatim>\<open>URLError\<close> or \<^verbatim>\<open>JSONDecodeError\<close>) or gives a JSON object, whose
  \<^verbatim>\<open>visitors\<close> field may be missing. Within one run no day is requested twice, so the
  service is a function from the domain and the day to its answer in that run. The
  \<^verbatim>\<open>visitors\<close> field is taken to be an integer, as the documents of the data file are
  taken to have fields of the types that the script writes.
\<close>

datatype response = Failed | Body "int option"

type_synonym analytics = "string \<Rightarrow> string \<Rightarrow> response"

definition fetch_sa_visitors_for_date :: "analytics \<Rightarrow> string \<Rightarrow> string \<Rightarrow> int" where
  "fetch_sa_visitors_for_date sa domain day_str =
     (case sa domain day_str of
        Body (Some visitors) \<Rightarrow> visitors
      | Body None \<Rightarrow> 0
      | Failed \<Rightarrow> - 1)"

subsection \<open>\<^verbatim>\<open>cmd_update\<close>\<close>

text \<open>
  The \<^verbatim>\<open>while d < today\<close> loop. The result says whether the loop ran to its end (then
  the \<^verbatim>\<open>else\<close> clause of the loop runs) or left by \<^verbatim>\<open>break\<close>, and gives \<^verbatim>\<open>cumulative\<close>,
  \<^verbatim>\<open>daily_history\<close>, \<^verbatim>\<open>finalized_days\<close> and the days requested so far, in order.
\<close>

function finalize_days ::
  "analytics \<Rightarrow> string \<Rightarrow> date \<Rightarrow> date \<Rightarrow> int \<Rightarrow> history \<Rightarrow> nat \<Rightarrow> string list \<Rightarrow>
   error + (bool \<times> int \<times> history \<times> nat \<times> string list)" where
  "finalize_days sa domain today d cumulative daily_history finalized_days fetched =
     (if date_lt d today then
        (let day_str = isoformat d;
             visitors = fetch_sa_visitors_for_date sa domain day_str
         in if visitors < 0
            then Inr (False, cumulative, daily_history, finalized_days, fetched @ [day_str])
            else (case add_day d of
                    Inl e \<Rightarrow> Inl e
                  | Inr d' \<Rightarrow>
                      finalize_days sa domain today d' (cumulative + visitors)
                        (dict_set daily_history day_str visitors) (finalized_days + 1)
                        (fetched @ [day_str])))
      else Inr (True, cumulative, daily_history, finalized_days, fetched))"
  by pat_completeness auto
termination
proof (relation "measures
    [\<lambda>(sa, domain, today, d, r). Suc (year today) - year d,
     \<lambda>(sa, domain, today, d, r). 12 - month d,
     \<lambda>(sa, domain, today, d, r). 31 - day d]", goal_cases)
  case 1
  show ?case by simp
next
  case (2 sa domain today d cumulative daily_history finalized_days fetched x xa x2)
  then show ?case
    by (auto simp: add_day_def date_lt_def days_in_month_def split: if_splits)
qed

declare finalize_days.simps [simp del]

text \<open>
  Lines 171 to 190: the days after \<^verbatim>\<open>last_counted\<close> and before today. The result is the
  new \<^verbatim>\<open>last_counted\<close>, \<^verbatim>\<open>cumulative\<close>, \<^verbatim>\<open>daily_history\<close> and the days requested.
\<close>

definition finalize_completed ::
  "analytics \<Rightarrow> string \<Rightarrow> date \<Rightarrow> string \<Rightarrow> int \<Rightarrow> history \<Rightarrow>
   error + (string \<times> int \<times> history \<times> string list)" where
  "finalize_completed sa domain today last_counted cumulative daily_history =
     (case fromisoformat last_counted of
        Inl e \<Rightarrow> Inl e
      | Inr last_date \<Rightarrow>
          if date_lt last_date today then
            (case add_day last_date of
               Inl e \<Rightarrow> Inl e
             | Inr d \<Rightarrow>
                 (case finalize_days sa domain today d cumulative daily_history 0 [] of
                    Inl e \<Rightarrow> Inl e
                  | Inr (completed, cumulative', daily_history', finalized_days, fetched) \<Rightarrow>
                      if completed then
                        (case sub_day today of
                           Inl e \<Rightarrow> Inl e
                         | Inr yesterday \<Rightarrow>
                             Inr (isoformat yesterday, cumulative', daily_history', fetched))
                      else Inr (last_counted, cumulative', daily_history', fetched)))
          else Inr (last_counted, cumulative, daily_history, []))"

text \<open>
  The whole of \<^verbatim>\<open>cmd_update\<close>. \<open>today\<close> is \<^verbatim>\<open>date.today()\<close>, \<open>now\<close> is
  \<^verbatim>\<open>datetime.now().isoformat()\<close>, \<open>file\<close> is the data file before the run (\<open>None\<close>: no
  file). The result is the document that \<^verbatim>\<open>save_data\<close> writes, with the days requested
  from the service in order, or the exception that ends the run before anything is
  written.
\<close>

definition cmd_update ::
  "analytics \<Rightarrow> date \<Rightarrow> string \<Rightarrow> string \<Rightarrow> visitor_data option \<Rightarrow>
   error + (visitor_data \<times> string list)" where
  "cmd_update sa today now domain file =
     (let prev = load_data file;
          today_str = isoformat today;
          cumulative = get_or (vd_cumulative prev) 0;
          last_counted = vd_last_counted_date prev;
          daily_history = get_or (vd_daily_history prev) [];
          cumulative = (if last_counted = None
                        then max INITIAL_CUMULATIVE (get_or (vd_count prev) 0)
                        else cumulative);
          last_counted = (case last_counted of None \<Rightarrow> today_str | Some s \<Rightarrow> s)
      in case finalize_completed sa domain today last_counted cumulative daily_history of
           Inl e \<Rightarrow> Inl e
         | Inr (last_counted, cumulative, daily_history, fetched) \<Rightarrow>
             (let fetched_today = fetch_sa_visitors_for_date sa domain today_str;
                  today_visitors = (if fetched_today < 0
                                    then get_or (vd_today_visitors prev) 0
                                    else fetched_today);
                  total = cumulative + today_visitors
              in Inr (\<lparr>vd_count = Some total,
                        vd_cumulative = Some cumulative,
                        vd_today_visitors = Some today_visitors,
                        vd_last_counted_date = Some last_counted,
                        vd_domain = Some domain,
                        vd_last_updated = Some now,
                        vd_daily_history = Some daily_history\<rparr>,
                      fetched @ [today_str])))"

subsection \<open>The days between two dates\<close>

text \<open>
  The gap days of a run: the calendar days strictly after \<open>last_date\<close> and strictly
  before \<open>today\<close>, in ascending order.
\<close>

function days_from :: "date \<Rightarrow> date \<Rightarrow> date list" where
  "days_from d today =
     (if date_lt d today
      then d # (case add_day d of Inl e \<Rightarrow> [] | Inr d' \<Rightarrow> days_from d' today)
      else [])"
  by pat_completeness auto
termination
proof (relation "measures
    [\<lambda>(d, today). Suc (year today) - year d,
     \<lambda>(d, today). 12 - month d,
     \<lambda>(d, today). 31 - day d]", goal_cases)
  case 1
  show ?case by simp
next
  case (2 d today x2)
  then show ?case
    by (auto simp: add_day_def date_lt_def days_in_month_def split: if_splits)
qed

declare days_from.simps [simp del]

definition gap_days :: "date \<Rightarrow> date \<Rightarrow> date list" where
  "gap_days last_date today =
     (case add_day last_date of Inl e \<Rightarrow> [] | Inr d \<Rightarrow> days_from d today)"

subsection \<open>\<^verbatim>\<open>compute_stats\<close>\<close>

text \<open>
  \<^verbatim>\<open>round(s / n, 1)\<close> for integers \<open>s\<close> and \<open>n > 0\<close>: the quotient rounded to one decimal,
  a tie going to the even digit. The script computes it in binary floating point; the
  model computes it on the exact quotient, and the two agree whenever the quotient is a
  whole number below \<open>2 ^ 53\<close>.
\<close>

definition round1_quot :: "int \<Rightarrow> int \<Rightarrow> rat" where
  "round1_quot s n =
     (let q = (10 * s) div n; r = (10 * s) mod n
      in of_int (if 2 * r < n then q else if n < 2 * r then q + 1
                 else if even q then q else q + 1) / 10)"

record stats =
  avg_7d :: "rat option"
  avg_30d :: "rat option"
  first_date :: string
  last_date :: string
  total_days_tracked :: nat
  avg_all_time :: "rat option"
  max_day :: "int option"
  min_day :: "int option"



subsection \<open>Vocabulary of the properties\<close>

text \<open>
  The count that a run receives for a day: what \<^verbatim>\<open>fetch_sa_visitors_for_date\<close> returns for
  the ISO string of that day.
\<close>

definition visitors_on :: "analytics \<Rightarrow> string \<Rightarrow> date \<Rightarrow> int" where
  "visitors_on sa domain d = fetch_sa_visitors_for_date sa domain (isoformat d)"

text \<open>The days, of a list of days in order, that come before the first failed request.\<close>

definition finalized :: "analytics \<Rightarrow> string \<Rightarrow> date list \<Rightarrow> date list" where
  "finalized sa domain ds = takeWhile (\<lambda>d. 0 \<le> visitors_on sa domain d) ds"

text \<open>A history after the counts of these days are stored in it, one after the other.\<close>

definition record_days :: "analytics \<Rightarrow> string \<Rightarrow> date list \<Rightarrow> history \<Rightarrow> history" where
  "record_days sa domain ds h =
     fold (\<lambda>d h. dict_set h (isoformat d) (visitors_on sa domain d)) ds h"

text \<open>
  The \<^verbatim>\<open>cumulative\<close> and the \<^verbatim>\<open>last_counted\<close> that a run starts from, after the
  first-run branch of \<^verbatim>\<open>cmd_update\<close> (lines 163 to 169).
\<close>

definition start_cumulative :: "visitor_data \<Rightarrow> int" where
  "start_cumulative prev =
     (if vd_last_counted_date prev = None
      then max INITIAL_CUMULATIVE (get_or (vd_count prev) 0)
      else get_or (vd_cumulative prev) 0)"

definition start_last_counted :: "date \<Rightarrow> visitor_data \<Rightarrow> string" where
  "start_last_counted today prev = get_or (vd_last_counted_date prev) (isoformat today)"

text \<open>
  The same service, with every answer that carries a negative \<^verbatim>\<open>visitors\<close> field replaced
  by a failed request.
\<close>

definition negative_as_failed :: "analytics \<Rightarrow> analytics" where
  "negative_as_failed sa domain day_str =
     (case sa domain day_str of
        Body (Some visitors) \<Rightarrow> if visitors < 0 then Failed else Body (Some visitors)
      | Body None \<Rightarrow> Body None
      | Failed \<Rightarrow> Failed)"

subsection \<open>The scenarios of the specification\<close>

text \<open>
  The service of the first-run scenario: 10, 15 and 20 visitors on 8, 9 and 10 February
  2026, and 5 so far on 11 February.
\<close>

definition scenario_sa :: analytics where
  "scenario_sa domain day_str =
     (if day_str = ''2026-02-08'' then Body (Some 10)
      else if day_str = ''2026-02-09'' then Body (Some 15)
      else if day_str = ''2026-02-10'' then Body (Some 20)
      else if day_str = ''2026-02-11'' then Body (Some 5)
      else Failed)"


text \<open>A data file that says the days up to 7 February 2026 are counted.\<close>

definition counted_to_feb7 :: visitor_data where
  "counted_to_feb7 =
     \<lparr>vd_count = Some 23869, vd_cumulative = Some 23869, vd_today_visitors = Some 0,
      vd_last_counted_date = Some ''2026-02-07'', vd_domain = Some ''example.org'',
      vd_last_updated = Some ''2026-02-07T06:00:00'', vd_daily_history = Some []\<rparr>"

text \<open>
  A service with an outage: 8 February has 10 visitors, the request for 9 February
  fails, and today has 5 so far.
\<close>

definition outage_sa :: analytics where
  "outage_sa domain day_str =
     (if day_str = ''2026-02-08'' then Body (Some 10)
      else if day_str = ''2026-02-09'' then Failed
      else if day_str = ''2026-02-10'' then Body (Some 20)
      else if day_str = ''2026-02-11'' then Body (Some 5)
      else Failed)"

text \<open>
  The service later on the same day, after the outage: it now reports 12 visitors for
  8 February and 7 so far for today.
\<close>

definition retry_sa :: analytics where
  "retry_sa domain day_str =
     (if day_str = ''2026-02-08'' then Body (Some 12)
      else if day_str = ''2026-02-09'' then Body (Some 15)
      else if day_str = ''2026-02-10'' then Body (Some 20)
      else if day_str = ''2026-02-11'' then Body (Some 7)
      else Failed)"


text \<open>A service that answers every request with the count \<open>- 3\<close>.\<close>

definition negative_sa :: analytics where
  "negative_sa domain day_str = Body (Some (- 3))"

text \<open>A data file that says the days up to 10 February 2026 are counted.\<close>

definition counted_to_feb10 :: visitor_data where
  "counted_to_feb10 =
     \<lparr>vd_count = Some 23917, vd_cumulative = Some 23914, vd_today_visitors = Some 3,
      vd_last_counted_date = Some ''2026-02-10'', vd_domain = Some ''example.org'',
      vd_last_updated = Some ''2026-02-10T23:00:00'',
      vd_daily_history =
        Some [(''2026-02-08'', 10), (''2026-02-09'', 15), (''2026-02-10'', 20)]\<rparr>"

text \<open>
  Two runs on 11 February 2026, starting from the file counted to 10 February: at 6:00
  the service reports 5 visitors for today, at 7:00 it reports 7.
\<close>

definition same_day_first :: "error + (visitor_data \<times> string list)" where
  "same_day_first =
     cmd_update scenario_sa (Date 2026 2 11) ''2026-02-11T06:00:00'' ''example.org''
       (Some counted_to_feb10)"

definition same_day_second :: "error + (visitor_data \<times> string list)" where
  "same_day_second =
     cmd_update retry_sa (Date 2026 2 11) ''2026-02-11T07:00:00'' ''example.org''
       (Some (fst (projr same_day_first)))"



section \<open>Properties\<close>

subsection \<open>Evaluation\<close>

lemmas date_defs =
  isoformat_def pad4_def pad2_def digit_char_def fromisoformat_def num2_def digit_val_def
  valid_date_def days_in_month_def is_leap_def date_lt_def date_le_def add_day_def sub_day_def

lemmas run_defs =
  cmd_update_def finalize_completed_def finalize_days.simps load_data_def get_or_def
  INITIAL_CUMULATIVE_def fetch_sa_visitors_for_date_def Let_def

subsection \<open>The calendar\<close>

lemma date_lt_irrefl: "\<not> date_lt d d"
  by (simp add: date_lt_def)

lemma date_lt_trans: "date_lt a b \<Longrightarrow> date_lt b c \<Longrightarrow> date_lt a c"
  by (auto simp: date_lt_def)

lemma date_lt_asym: "date_lt a b \<Longrightarrow> \<not> date_lt b a"
  by (auto simp: date_lt_def)

lemma date_trichotomy: "date_lt a b \<or> a = b \<or> date_lt b a"
  by (cases a; cases b) (auto simp: date_lt_def)

lemma days_in_month_bounds: "28 \<le> days_in_month y m" "days_in_month y m \<le> 31"
  by (simp_all add: days_in_month_def)

lemma add_day_valid: "valid_date d \<Longrightarrow> add_day d = Inr d' \<Longrightarrow> valid_date d'"
  using days_in_month_bounds[of "year d" "Suc (month d)"] days_in_month_bounds[of "Suc (year d)" 1]
  by (auto simp: add_day_def valid_date_def split: if_splits)

lemma add_day_lt: "add_day d = Inr d' \<Longrightarrow> date_lt d d'"
  by (auto simp: add_day_def date_lt_def split: if_splits)

lemma add_day_least:
  "valid_date x \<Longrightarrow> add_day d = Inr d' \<Longrightarrow> date_lt d x \<Longrightarrow> date_le d' x"
  by (cases x) (auto simp: add_day_def date_lt_def date_le_def valid_date_def split: if_splits)



lemma days_in_month_12 [simp]: "days_in_month y 12 = 31"
  by (simp add: days_in_month_def)

lemma add_day_defined: "valid_date today \<Longrightarrow> date_lt d today \<Longrightarrow> \<exists>d'. add_day d = Inr d'"
proof -
  assume v: "valid_date today" and lt: "date_lt d today"
  show ?thesis
  proof (cases "day d < days_in_month (year d) (month d) \<or> month d < 12 \<or> year d < 9999")
    case True
    then show ?thesis by (auto simp: add_day_def)
  next
    case False
    then have a: "days_in_month (year d) (month d) \<le> day d" "12 \<le> month d" "9999 \<le> year d"
      by auto
    from v lt a(3) have y: "year d = year today" "year today = 9999"
      by (auto simp: date_lt_def valid_date_def)
    from v lt a(2) y have m: "month d = 12" "month today = 12"
      by (auto simp: date_lt_def valid_date_def)
    from v lt a(1) y m have False
      by (auto simp: date_lt_def valid_date_def)
    then show ?thesis ..
  qed
qed

lemma sub_day_valid: "valid_date d \<Longrightarrow> sub_day d = Inr y \<Longrightarrow> valid_date y"
proof -
  assume v: "valid_date d" and s: "sub_day d = Inr y"
  consider (a) "1 < day d" | (b) "\<not> 1 < day d" "1 < month d"
    | (c) "\<not> 1 < day d" "\<not> 1 < month d" "1 < year d"
    | (e) "\<not> 1 < day d" "\<not> 1 < month d" "\<not> 1 < year d" by blast
  then show ?thesis
  proof cases
    case a
    with s have "y = Date (year d) (month d) (day d - 1)" by (simp add: sub_day_def)
    with v a show ?thesis by (auto simp: valid_date_def)
  next
    case b
    with s have "y = Date (year d) (month d - 1) (days_in_month (year d) (month d - 1))"
      by (simp add: sub_day_def)
    with v b days_in_month_bounds(1)[of "year d" "month d - 1"] show ?thesis
      by (auto simp: valid_date_def)
  next
    case c
    with s have "y = Date (year d - 1) 12 31" by (simp add: sub_day_def)
    with v c show ?thesis by (auto simp: valid_date_def)
  next
    case e
    with s show ?thesis by (simp add: sub_day_def)
  qed
qed

lemma sub_day_add_day: "valid_date d \<Longrightarrow> sub_day d = Inr y \<Longrightarrow> add_day y = Inr d"
proof -
  assume v: "valid_date d" and s: "sub_day d = Inr y"
  consider (a) "1 < day d" | (b) "\<not> 1 < day d" "1 < month d"
    | (c) "\<not> 1 < day d" "\<not> 1 < month d" "1 < year d"
    | (e) "\<not> 1 < day d" "\<not> 1 < month d" "\<not> 1 < year d" by blast
  then show ?thesis
  proof cases
    case a
    with s have "y = Date (year d) (month d) (day d - 1)" by (simp add: sub_day_def)
    with v a show ?thesis by (cases d) (auto simp: valid_date_def add_day_def)
  next
    case b
    with s have "y = Date (year d) (month d - 1) (days_in_month (year d) (month d - 1))"
      by (simp add: sub_day_def)
    with v b show ?thesis by (cases d) (auto simp: valid_date_def add_day_def)
  next
    case c
    with s have "y = Date (year d - 1) 12 31" by (simp add: sub_day_def)
    with v c show ?thesis by (cases d) (auto simp: valid_date_def add_day_def)
  next
    case e
    with s show ?thesis by (simp add: sub_day_def)
  qed
qed

lemma sub_day_lt: "valid_date d \<Longrightarrow> sub_day d = Inr y \<Longrightarrow> date_lt y d"
  using add_day_lt sub_day_add_day by blast

lemma sub_day_defined: "valid_date d \<Longrightarrow> valid_date x \<Longrightarrow> date_lt x d \<Longrightarrow> \<exists>y. sub_day d = Inr y"
proof -
  assume "valid_date d" "valid_date x" "date_lt x d"
  then have "1 < day d \<or> 1 < month d \<or> 1 < year d"
    by (auto simp: valid_date_def date_lt_def)
  then show ?thesis by (auto simp: sub_day_def)
qed

subsection \<open>ISO strings and their order\<close>

lemma of_char_digit_char: "n < 10 \<Longrightarrow> of_char (digit_char n) = 48 + n"
proof -
  assume "n < 10"
  then have "n \<in> {0, 1, 2, 3, 4, 5, 6, 7, 8, 9}" by auto
  then show ?thesis unfolding digit_char_def by auto
qed

lemma digit_val_digit_char: "n < 10 \<Longrightarrow> digit_val (digit_char n) = Some n"
  by (simp add: digit_val_def of_char_digit_char)



lemma num2_pad2: "n < 100 \<Longrightarrow> num2 (digit_char (n div 10 mod 10)) (digit_char (n mod 10)) = Some n"
  by (simp add: num2_def digit_val_digit_char)












lemma valid_date_bounds:
  "valid_date d \<Longrightarrow> year d < 10000 \<and> month d < 100 \<and> day d < 100"
  using days_in_month_bounds(2)[of "year d" "month d"] by (simp add: valid_date_def)


lemma isoformat_chars:
  "isoformat d =
     [digit_char (year d div 100 div 10 mod 10), digit_char (year d div 100 mod 10),
      digit_char (year d mod 100 div 10 mod 10), digit_char (year d mod 100 mod 10),
      CHR ''-'', digit_char (month d div 10 mod 10), digit_char (month d mod 10),
      CHR ''-'', digit_char (day d div 10 mod 10), digit_char (day d mod 10)]"
  by (simp add: isoformat_def pad4_def pad2_def)

lemma fromisoformat_isoformat: "valid_date d \<Longrightarrow> fromisoformat (isoformat d) = Inr d"
proof -
  assume v: "valid_date d"
  then have b: "year d < 10000" "month d < 100" "day d < 100"
    using valid_date_bounds by blast+
  then have c: "year d div 100 < 100" "year d mod 100 < 100" by auto
  have y: "100 * (year d div 100) + year d mod 100 = year d" by simp
  have "fromisoformat (isoformat d) =
     (if valid_date (Date (100 * (year d div 100) + year d mod 100) (month d) (day d))
      then Inr (Date (100 * (year d div 100) + year d mod 100) (month d) (day d))
      else Inl ValueError)"
    unfolding isoformat_chars fromisoformat_def
    using num2_pad2[OF c(1)] num2_pad2[OF c(2)] num2_pad2[OF b(2)] num2_pad2[OF b(3)]
    by simp
  with v show ?thesis unfolding y by simp
qed

lemma fromisoformat_valid: "fromisoformat s = Inr d \<Longrightarrow> valid_date d"
  unfolding fromisoformat_def
  by (simp split: if_splits option.splits)

lemma isoformat_inj: "valid_date a \<Longrightarrow> valid_date b \<Longrightarrow> isoformat a = isoformat b \<Longrightarrow> a = b"
  by (metis fromisoformat_isoformat sum.inject(2))


subsection \<open>The gap days\<close>

lemma days_from_Nil: "\<not> date_lt d today \<Longrightarrow> days_from d today = []"
  by (simp add: days_from.simps)

lemma days_from_Cons:
  "date_lt d today \<Longrightarrow> add_day d = Inr d' \<Longrightarrow> days_from d today = d # days_from d' today"
  by (subst days_from.simps) simp

lemma days_from_valid: "valid_date d \<Longrightarrow> x \<in> set (days_from d today) \<Longrightarrow> valid_date x"
proof (induction d today rule: days_from.induct)
  case (1 d today)
  show ?case
  proof (cases "date_lt d today")
    case False
    with 1 show ?thesis by (simp add: days_from_Nil)
  next
    case True
    show ?thesis
    proof (cases "add_day d")
      case (Inl e)
      with True 1 show ?thesis by (simp add: days_from.simps[of d])
    next
      case (Inr d')
      with True have "days_from d today = d # days_from d' today" by (rule days_from_Cons)
      with 1 True Inr add_day_valid[OF "1.prems"(1) Inr] show ?thesis by auto
    qed
  qed
qed

lemma days_from_lower: "x \<in> set (days_from d today) \<Longrightarrow> date_le d x \<and> date_lt x today"
proof (induction d today rule: days_from.induct)
  case (1 d today)
  show ?case
  proof (cases "date_lt d today")
    case False
    with 1 show ?thesis by (simp add: days_from_Nil)
  next
    case True
    show ?thesis
    proof (cases "add_day d")
      case (Inl e)
      with True 1 show ?thesis by (simp add: days_from.simps[of d] date_le_def)
    next
      case (Inr d')
      with True have e: "days_from d today = d # days_from d' today" by (rule days_from_Cons)
      show ?thesis
      proof (cases "x = d")
        case True
        with \<open>date_lt d today\<close> show ?thesis by (simp add: date_le_def)
      next
        case False
        with "1.prems" e have "x \<in> set (days_from d' today)" by simp
        with "1.IH"[OF True Inr] have "date_le d' x" "date_lt x today" by simp_all
        with add_day_lt[OF Inr] show ?thesis
          by (auto simp: date_le_def intro: date_lt_trans)
      qed
    qed
  qed
qed

lemma days_from_upper:
  "valid_date today \<Longrightarrow> valid_date x \<Longrightarrow> date_le d x \<Longrightarrow> date_lt x today \<Longrightarrow>
   x \<in> set (days_from d today)"
proof (induction d today rule: days_from.induct)
  case (1 d today)
  from "1.prems" have lt: "date_lt d today"
    by (auto simp: date_le_def intro: date_lt_trans)
  then obtain d' where d': "add_day d = Inr d'"
    using add_day_defined "1.prems"(1) by blast
  with lt have e: "days_from d today = d # days_from d' today" by (rule days_from_Cons)
  show ?case
  proof (cases "x = d")
    case True
    with e show ?thesis by simp
  next
    case False
    with "1.prems" have "date_lt d x" by (simp add: date_le_def)
    then have "date_le d' x" using add_day_least[OF "1.prems"(2) d'] by simp
    with "1.IH"[OF lt d' "1.prems"(1,2)] "1.prems"(4) e show ?thesis by simp
  qed
qed

lemma set_days_from:
  "valid_date d \<Longrightarrow> valid_date today \<Longrightarrow>
   set (days_from d today) = {x. valid_date x \<and> date_le d x \<and> date_lt x today}"
  using days_from_valid days_from_lower days_from_upper by blast

lemma sorted_days_from: "sorted_wrt date_lt (days_from d today)"
proof (induction d today rule: days_from.induct)
  case (1 d today)
  show ?case
  proof (cases "date_lt d today")
    case False
    then show ?thesis by (simp add: days_from_Nil)
  next
    case True
    show ?thesis
    proof (cases "add_day d")
      case (Inl e)
      with True show ?thesis by (simp add: days_from.simps[of d])
    next
      case (Inr d')
      with True have e: "days_from d today = d # days_from d' today" by (rule days_from_Cons)
      have "\<forall>x\<in>set (days_from d' today). date_lt d x"
      proof
        fix x assume "x \<in> set (days_from d' today)"
        then have "date_le d' x" using days_from_lower by blast
        with add_day_lt[OF Inr] show "date_lt d x"
          by (auto simp: date_le_def intro: date_lt_trans)
      qed
      with "1.IH"[OF True Inr] e show ?thesis by simp
    qed
  qed
qed

lemma gap_days_Nil: "\<not> date_lt ld today \<Longrightarrow> gap_days ld today = []"
proof (cases "add_day ld")
  case (Inl e)
  then show ?thesis by (simp add: gap_days_def)
next
  case (Inr d)
  assume n: "\<not> date_lt ld today"
  have "\<not> date_lt d today"
    using add_day_lt[OF Inr] n date_lt_trans by blast
  with Inr show ?thesis by (simp add: gap_days_def days_from_Nil)
qed


subsection \<open>What a run computes\<close>

lemma finalize_days_eq:
  assumes "valid_date today"
  shows "finalize_days sa domain today d cumulative daily_history n fetched =
     Inr (finalized sa domain (days_from d today) = days_from d today,
          cumulative + sum_list (map (visitors_on sa domain) (finalized sa domain (days_from d today))),
          record_days sa domain (finalized sa domain (days_from d today)) daily_history,
          n + length (finalized sa domain (days_from d today)),
          fetched @ map isoformat
            (take (Suc (length (finalized sa domain (days_from d today)))) (days_from d today)))"
  using assms
proof (induction sa domain today d cumulative daily_history n fetched rule: finalize_days.induct)
  case (1 sa domain today d cumulative daily_history n fetched)
  show ?case
  proof (cases "date_lt d today")
    case False
    then show ?thesis
      by (simp add: finalize_days.simps[of _ _ _ d] Let_def days_from_Nil finalized_def record_days_def)
  next
    case True
    then obtain d' where d': "add_day d = Inr d'"
      using add_day_defined "1.prems" by blast
    with True have e: "days_from d today = d # days_from d' today" by (rule days_from_Cons)
    show ?thesis
    proof (cases "visitors_on sa domain d < 0")
      case neg: True
      then have "finalized sa domain (days_from d today) = []"
        by (simp add: e finalized_def)
      with neg True show ?thesis
        by (simp add: finalize_days.simps[of _ _ _ d] Let_def e record_days_def visitors_on_def)
    next
      case nonneg: False
      then have f: "finalized sa domain (d # days_from d' today) = d # finalized sa domain (days_from d' today)"
        by (simp add: finalized_def)
      have v: "\<not> fetch_sa_visitors_for_date sa domain (isoformat d) < 0"
        using nonneg by (simp add: visitors_on_def)
      have "finalize_days sa domain today d cumulative daily_history n fetched =
          finalize_days sa domain today d'
            (cumulative + fetch_sa_visitors_for_date sa domain (isoformat d))
            (dict_set daily_history (isoformat d) (fetch_sa_visitors_for_date sa domain (isoformat d)))
            (n + 1) (fetched @ [isoformat d])"
        using True v d' by (simp add: finalize_days.simps[of _ _ _ d] Let_def)
      also note "1.IH"[OF True refl refl v d' "1.prems"]
      finally show ?thesis
        unfolding e f by (simp add: record_days_def visitors_on_def)
    qed
  qed
qed

lemma finalize_completed_eq:
  assumes "valid_date today" and "fromisoformat lc = Inr ld"
  shows "finalize_completed sa domain today lc cumulative daily_history =
     Inr (if date_lt ld today \<and> finalized sa domain (gap_days ld today) = gap_days ld today
          then isoformat (projr (sub_day today)) else lc,
          cumulative + sum_list (map (visitors_on sa domain) (finalized sa domain (gap_days ld today))),
          record_days sa domain (finalized sa domain (gap_days ld today)) daily_history,
          map isoformat
            (take (Suc (length (finalized sa domain (gap_days ld today)))) (gap_days ld today)))"
proof (cases "date_lt ld today")
  case False
  then show ?thesis
    using assms(2) by (simp add: finalize_completed_def gap_days_Nil finalized_def record_days_def)
next
  case True
  then obtain d where d: "add_day ld = Inr d"
    using add_day_defined assms(1) by blast
  have "valid_date ld" using assms(2) by (rule fromisoformat_valid)
  then obtain y where y: "sub_day today = Inr y"
    using sub_day_defined assms(1) True by blast
  have g: "gap_days ld today = days_from d today" by (simp add: gap_days_def d)
  show ?thesis
    unfolding g using True d y assms(2)
    by (simp add: finalize_completed_def finalize_days_eq[OF assms(1)])
qed

lemma cmd_update_eq:
  assumes "valid_date today"
    and "fromisoformat (start_last_counted today (load_data file)) = Inr ld"
  shows "cmd_update sa today now domain file =
     Inr (\<lparr>vd_count = Some (start_cumulative (load_data file)
               + sum_list (map (visitors_on sa domain) (finalized sa domain (gap_days ld today)))
               + (if visitors_on sa domain today < 0
                  then get_or (vd_today_visitors (load_data file)) 0
                  else visitors_on sa domain today)),
           vd_cumulative = Some (start_cumulative (load_data file)
               + sum_list (map (visitors_on sa domain) (finalized sa domain (gap_days ld today)))),
           vd_today_visitors = Some (if visitors_on sa domain today < 0
                  then get_or (vd_today_visitors (load_data file)) 0
                  else visitors_on sa domain today),
           vd_last_counted_date = Some
             (if date_lt ld today \<and> finalized sa domain (gap_days ld today) = gap_days ld today
              then isoformat (projr (sub_day today))
              else start_last_counted today (load_data file)),
           vd_domain = Some domain,
           vd_last_updated = Some now,
           vd_daily_history = Some (record_days sa domain (finalized sa domain (gap_days ld today))
               (get_or (vd_daily_history (load_data file)) []))\<rparr>,
          map isoformat
            (take (Suc (length (finalized sa domain (gap_days ld today)))) (gap_days ld today))
          @ [isoformat today])"
proof -
  have l: "(case vd_last_counted_date (load_data file) of None \<Rightarrow> isoformat today | Some s \<Rightarrow> s)
      = start_last_counted today (load_data file)"
    by (simp add: start_last_counted_def get_or_def)
  show ?thesis
    unfolding cmd_update_def Let_def l finalize_completed_eq[OF assms]
    by (simp add: visitors_on_def start_cumulative_def)
qed

subsection \<open>The gap days as a set\<close>

lemma date_le_add_day:
  assumes "valid_date x" and "add_day ld = Inr d"
  shows "date_le d x \<longleftrightarrow> date_lt ld x"
proof
  assume "date_le d x"
  with add_day_lt[OF assms(2)] show "date_lt ld x"
    by (auto simp: date_le_def intro: date_lt_trans)
next
  assume "date_lt ld x"
  then show "date_le d x" by (rule add_day_least[OF assms])
qed

lemma set_gap_days:
  assumes "valid_date ld" and "valid_date today"
  shows "set (gap_days ld today) = {x. valid_date x \<and> date_lt ld x \<and> date_lt x today}"
proof (cases "add_day ld")
  case (Inl e)
  have "\<not> (valid_date x \<and> date_lt ld x)" for x
    using add_day_defined[of x ld] Inl by auto
  with Inl show ?thesis by (auto simp: gap_days_def)
next
  case (Inr d)
  have "valid_date d" using assms(1) Inr by (rule add_day_valid)
  then show ?thesis
    using Inr date_le_add_day[OF _ Inr] by (auto simp: gap_days_def set_days_from[OF _ assms(2)])
qed

lemma sorted_gap_days: "sorted_wrt date_lt (gap_days ld today)"
  by (cases "add_day ld") (simp_all add: gap_days_def sorted_days_from)

lemma sorted_wrt_date_lt_distinct: "sorted_wrt date_lt xs \<Longrightarrow> distinct xs"
  by (induction xs) (auto simp: date_lt_irrefl)

lemma distinct_gap_days: "distinct (gap_days ld today)"
  using sorted_gap_days by (rule sorted_wrt_date_lt_distinct)

lemma gap_day_not_today:
  assumes "valid_date ld" and "valid_date today" and "d \<in> set (gap_days ld today)"
  shows "isoformat d \<noteq> isoformat today"
proof -
  from assms have "valid_date d" "date_lt d today" by (simp_all add: set_gap_days)
  then show ?thesis
    using isoformat_inj[OF _ assms(2)] date_lt_irrefl by blast
qed

subsection \<open>Finalized days and the history\<close>

lemma finalized_all:
  "(\<forall>d\<in>set ds. 0 \<le> visitors_on sa domain d) \<longleftrightarrow> finalized sa domain ds = ds"
  by (auto simp: finalized_def takeWhile_eq_all_conv)

lemma finalized_split:
  "\<forall>d\<in>set before. 0 \<le> visitors_on sa domain d \<Longrightarrow> visitors_on sa domain failed < 0 \<Longrightarrow>
   finalized sa domain (before @ failed # after) = before"
  by (simp add: finalized_def takeWhile_append2)



lemma map_of_dict_set: "map_of (dict_set h k v) = (map_of h)(k \<mapsto> v)"
  by (induction h k v rule: dict_set.induct) auto

lemma fst_dict_set: "set (map fst (dict_set h k v)) = insert k (set (map fst h))"
  by (induction h k v rule: dict_set.induct) auto

lemma distinct_dict_set: "distinct (map fst h) \<Longrightarrow> distinct (map fst (dict_set h k v))"
proof (induction h k v rule: dict_set.induct)
  case (1 k v)
  then show ?case by simp
next
  case (2 k' v' h k v)
  then show ?case using fst_dict_set[of h k v] by auto
qed

lemma record_days_snoc:
  "record_days sa domain (ds @ [d]) h =
     dict_set (record_days sa domain ds h) (isoformat d) (visitors_on sa domain d)"
  by (simp add: record_days_def)

lemma map_of_record_days_other:
  "k \<notin> isoformat ` set ds \<Longrightarrow> map_of (record_days sa domain ds h) k = map_of h k"
proof (induction ds rule: rev_induct)
  case Nil
  then show ?case by (simp add: record_days_def)
next
  case (snoc d ds)
  then show ?case by (simp add: record_days_snoc map_of_dict_set)
qed

lemma map_of_record_days:
  assumes "\<forall>d\<in>set ds. valid_date d" and "distinct ds" and "d \<in> set ds"
  shows "map_of (record_days sa domain ds h) (isoformat d) = Some (visitors_on sa domain d)"
  using assms
proof (induction ds rule: rev_induct)
  case Nil
  then show ?case by simp
next
  case (snoc x ds)
  show ?case
  proof (cases "d = x")
    case True
    then show ?thesis by (simp add: record_days_snoc map_of_dict_set)
  next
    case False
    with snoc.prems have m: "d \<in> set ds" and v: "valid_date d" "valid_date x" by auto
    then have "isoformat d \<noteq> isoformat x" using False isoformat_inj by blast
    with snoc.IH snoc.prems m show ?thesis
      by (simp add: record_days_snoc map_of_dict_set)
  qed
qed

subsection \<open>The last gap day\<close>

lemma sorted_wrt_last:
  "sorted_wrt R xs \<Longrightarrow> x \<in> set xs \<Longrightarrow> x \<noteq> last xs \<Longrightarrow> R x (last xs)"
proof (induction xs)
  case Nil
  then show ?case by simp
next
  case (Cons a xs)
  show ?case
  proof (cases "xs = []")
    case True
    with Cons.prems show ?thesis by simp
  next
    case False
    then have l: "last (a # xs) = last xs" by simp
    have "last xs \<in> set xs" using False by simp
    with Cons show ?thesis unfolding l by auto
  qed
qed

lemma last_gap_day:
  assumes "valid_date ld" and "valid_date today" and "sub_day today = Inr yesterday"
    and "date_lt ld yesterday"
  shows "gap_days ld today \<noteq> [] \<and> last (gap_days ld today) = yesterday"
proof -
  have vy: "valid_date yesterday" using assms(2,3) by (rule sub_day_valid)
  have ay: "add_day yesterday = Inr today" using assms(2,3) by (rule sub_day_add_day)
  have yt: "date_lt yesterday today" using assms(2,3) by (rule sub_day_lt)
  have m: "yesterday \<in> set (gap_days ld today)"
    using vy yt assms(4) by (simp add: set_gap_days[OF assms(1,2)])
  then have ne: "gap_days ld today \<noteq> []" by auto
  then have "last (gap_days ld today) \<in> set (gap_days ld today)" by simp
  then have lv: "valid_date (last (gap_days ld today))"
    and lt: "date_lt (last (gap_days ld today)) today"
    by (simp_all add: set_gap_days[OF assms(1,2)])
  have "last (gap_days ld today) = yesterday"
  proof (rule ccontr)
    assume "last (gap_days ld today) \<noteq> yesterday"
    then have "date_lt yesterday (last (gap_days ld today))"
      using sorted_wrt_last[OF sorted_gap_days m] by simp
    then have "date_le today (last (gap_days ld today))"
      by (rule add_day_least[OF lv ay])
    with lt show False
      using date_lt_irrefl date_lt_asym by (auto simp: date_le_def)
  qed
  with ne show ?thesis by simp
qed

subsection \<open>Dates of the scenarios\<close>

lemma gap_days_feb7_feb11:
  "gap_days (Date 2026 2 7) (Date 2026 2 11) = [Date 2026 2 8, Date 2026 2 9, Date 2026 2 10]"
  by (simp add: gap_days_def days_from.simps add_day_def date_lt_def days_in_month_def is_leap_def)

subsection \<open>Reading the data file\<close>

lemma get_or_simps [simp]: "get_or (Some x) dflt = x" "get_or None dflt = dflt"
  by (simp_all add: get_or_def)

lemma load_data_Some [simp]: "load_data (Some prev) = prev"
  by (simp add: load_data_def)

lemma start_Some [simp]:
  "vd_last_counted_date prev = Some lc \<Longrightarrow> start_last_counted today prev = lc"
  "vd_last_counted_date prev = Some lc \<Longrightarrow>
     start_cumulative prev = get_or (vd_cumulative prev) 0"
  by (simp_all add: start_last_counted_def start_cumulative_def get_or_def)

lemma gap_days_after_not_fetched:
  assumes "valid_date ld" and "valid_date today"
    and "gap_days ld today = before @ failed # after" and "d \<in> set after"
  shows "isoformat d \<notin> set (map isoformat before @ [isoformat failed, isoformat today])"
proof -
  have dist: "distinct (before @ failed # after)"
    using distinct_gap_days[of ld today] assms(3) by simp
  have v: "\<And>x. x \<in> set (before @ failed # after) \<Longrightarrow> valid_date x"
    using set_gap_days[OF assms(1,2)] assms(3) by auto
  have g: "d \<in> set (gap_days ld today)" using assms(3,4) by simp
  have "isoformat d \<noteq> isoformat today" using assms(1,2) g by (rule gap_day_not_today)
  moreover have "isoformat d \<noteq> isoformat failed"
    using dist assms(4) v isoformat_inj[of d failed] by auto
  moreover have "isoformat d \<noteq> isoformat x" if "x \<in> set before" for x
    using dist assms(4) v that isoformat_inj[of d x] by auto
  ultimately show ?thesis by auto
qed

lemma iso_feb [simp]:
  "isoformat (Date 2026 2 7) = ''2026-02-07''"
  "isoformat (Date 2026 2 8) = ''2026-02-08''"
  "isoformat (Date 2026 2 9) = ''2026-02-09''"
  "isoformat (Date 2026 2 10) = ''2026-02-10''"
  "isoformat (Date 2026 2 11) = ''2026-02-11''"
  by (simp_all add: isoformat_def pad4_def pad2_def digit_char_def)

lemma valid_feb11: "valid_date (Date 2026 2 11)"
  by (simp add: valid_date_def days_in_month_def)

lemma parse_feb:
  "fromisoformat ''2026-02-07'' = Inr (Date 2026 2 7)"
  "fromisoformat ''2026-02-10'' = Inr (Date 2026 2 10)"
  "fromisoformat ''2026-02-11'' = Inr (Date 2026 2 11)"
  by (simp_all add: date_defs)

subsection \<open>Services that agree, and negative counts\<close>


lemma fetch_negative_as_failed:
  "fetch_sa_visitors_for_date (negative_as_failed sa) domain s =
     (if fetch_sa_visitors_for_date sa domain s < 0 then - 1
      else fetch_sa_visitors_for_date sa domain s)"
  by (simp add: fetch_sa_visitors_for_date_def negative_as_failed_def
      split: response.splits option.splits)

lemma finalize_days_negative_as_failed:
  "finalize_days (negative_as_failed sa) domain today d cumulative daily_history n fetched =
   finalize_days sa domain today d cumulative daily_history n fetched"
proof (induction sa domain today d cumulative daily_history n fetched rule: finalize_days.induct)
  case (1 sa domain today d cumulative daily_history n fetched)
  show ?case
  proof (cases "date_lt d today \<and> \<not> fetch_sa_visitors_for_date sa domain (isoformat d) < 0")
    case False
    then show ?thesis
      by (auto simp: finalize_days.simps[of _ _ _ d] Let_def fetch_negative_as_failed)
  next
    case True
    show ?thesis
    proof (cases "add_day d")
      case (Inl e)
      with True show ?thesis
        by (simp add: finalize_days.simps[of _ _ _ d] Let_def fetch_negative_as_failed)
    next
      case (Inr d')
      from True have lt: "date_lt d today"
        and v: "\<not> fetch_sa_visitors_for_date sa domain (isoformat d) < 0" by simp_all
      show ?thesis
        using "1.IH"[OF lt refl refl v Inr] lt v Inr
        by (simp add: finalize_days.simps[of _ _ _ d] Let_def fetch_negative_as_failed)
    qed
  qed
qed

lemma finalize_completed_negative_as_failed:
  "finalize_completed (negative_as_failed sa) domain today lc cumulative daily_history =
   finalize_completed sa domain today lc cumulative daily_history"
  unfolding finalize_completed_def finalize_days_negative_as_failed by (rule refl)


lemma gap_days_yesterday:
  assumes "valid_date today" and "sub_day today = Inr ld"
  shows "gap_days ld today = []"
proof -
  have "add_day ld = Inr today" using assms by (rule sub_day_add_day)
  then show ?thesis by (simp add: gap_days_def days_from_Nil date_lt_irrefl)
qed

lemma finalized_Nil [simp]: "finalized sa domain [] = []"
  by (simp add: finalized_def)

lemma record_days_Nil [simp]: "record_days sa domain [] h = h"
  by (simp add: record_days_def)

subsection \<open>Going back some days\<close>

lemma date_le_refl [simp]: "date_le d d"
  by (simp add: date_le_def)

lemma date_le_trans: "date_le a b \<Longrightarrow> date_le b c \<Longrightarrow> date_le a c"
  by (auto simp: date_le_def intro: date_lt_trans)






subsection \<open>The windows of the statistics\<close>


lemma round1_quot_one [simp]: "round1_quot v 1 = of_int v"
  by (simp add: round1_quot_def)






lemma iso_stats_dates [simp]:
  "isoformat (Date 2026 2 4) = ''2026-02-04''"
  "isoformat (Date 2026 1 12) = ''2026-01-12''"
  "isoformat (Date 2026 3 13) = ''2026-03-13''"
  "isoformat (Date 2026 2 18) = ''2026-02-18''"
  "isoformat (Date 2026 3 20) = ''2026-03-20''"
  by (simp_all add: isoformat_def pad4_def pad2_def digit_char_def)

subsection \<open>The first run\<close>



subsection \<open>A run in which every gap day is fetched\<close>

text \<open>
  C5. Let the data file have a \<^verbatim>\<open>last_counted_date\<close> before yesterday, and let the request
  for every gap day (the days strictly after \<^verbatim>\<open>last_counted_date\<close> and strictly before
  today, in ascending order) return a non-negative count. Then the run writes a document
  in which \<^verbatim>\<open>cumulative\<close> is the prior \<^verbatim>\<open>cumulative\<close> plus the sum of these counts, every
  gap day is in \<^verbatim>\<open>daily_history\<close> with its count, and \<^verbatim>\<open>last_counted_date\<close> is yesterday,
  which is the last gap day.
\<close>

theorem all_gap_days_finalized:
  assumes "valid_date today"
    and "vd_last_counted_date prev = Some lc" and "fromisoformat lc = Inr ld"
    and "sub_day today = Inr yesterday" and "date_lt ld yesterday"
    and "\<forall>d\<in>set (gap_days ld today). 0 \<le> visitors_on sa domain d"
  shows "\<exists>data fetched.
     cmd_update sa today now domain (Some prev) = Inr (data, fetched) \<and>
     vd_cumulative data =
       Some (get_or (vd_cumulative prev) 0 + (\<Sum>d\<leftarrow>gap_days ld today. visitors_on sa domain d)) \<and>
     (\<forall>d\<in>set (gap_days ld today).
        map_of (get_or (vd_daily_history data) []) (isoformat d) = Some (visitors_on sa domain d)) \<and>
     vd_last_counted_date data = Some (isoformat yesterday) \<and>
     last (gap_days ld today) = yesterday \<and>
     set (gap_days ld today) = {d. valid_date d \<and> date_lt ld d \<and> date_lt d today} \<and>
     sorted_wrt date_lt (gap_days ld today)"
proof -
  have vl: "valid_date ld" using assms(3) by (rule fromisoformat_valid)
  have lt: "date_lt ld today"
    using assms(5) sub_day_lt[OF assms(1,4)] by (rule date_lt_trans)
  have all: "finalized sa domain (gap_days ld today) = gap_days ld today"
    using assms(6) by (simp add: finalized_all)
  have s: "set (gap_days ld today) = {d. valid_date d \<and> date_lt ld d \<and> date_lt d today}"
    using vl assms(1) by (rule set_gap_days)
  then have v: "\<forall>d\<in>set (gap_days ld today). valid_date d" by simp
  have p: "fromisoformat (start_last_counted today (load_data (Some prev))) = Inr ld"
    using assms(2,3) by simp
  have l: "last (gap_days ld today) = yesterday"
    using last_gap_day[OF vl assms(1,4,5)] by simp
  have m: "\<forall>d\<in>set (gap_days ld today).
      map_of (record_days sa domain (gap_days ld today) (get_or (vd_daily_history prev) []))
        (isoformat d) = Some (visitors_on sa domain d)"
    using map_of_record_days[OF v distinct_gap_days] by blast
  show ?thesis
    unfolding cmd_update_eq[OF assms(1) p] all
    using lt assms(2,4) l s m sorted_gap_days
    by simp
qed

text \<open>
  The run of 11 February 2026 on a file counted to 7 February, with 10, 15 and 20
  visitors on the three gap days: \<^verbatim>\<open>cumulative\<close> becomes 23914.
\<close>

theorem all_gap_days_finalized_witness:
  "valid_date (Date 2026 2 11) \<and>
   fromisoformat ''2026-02-07'' = Inr (Date 2026 2 7) \<and>
   sub_day (Date 2026 2 11) = Inr (Date 2026 2 10) \<and>
   date_lt (Date 2026 2 7) (Date 2026 2 10) \<and>
   gap_days (Date 2026 2 7) (Date 2026 2 11) = [Date 2026 2 8, Date 2026 2 9, Date 2026 2 10] \<and>
   visitors_on scenario_sa ''example.org'' (Date 2026 2 8) = 10 \<and>
   visitors_on scenario_sa ''example.org'' (Date 2026 2 9) = 15 \<and>
   visitors_on scenario_sa ''example.org'' (Date 2026 2 10) = 20 \<and>
   (\<exists>data fetched.
     cmd_update scenario_sa (Date 2026 2 11) ''2026-02-11T06:00:00'' ''example.org''
       (Some counted_to_feb7) = Inr (data, fetched) \<and>
     vd_cumulative data = Some 23914 \<and>
     map_of (get_or (vd_daily_history data) []) ''2026-02-09'' = Some 15 \<and>
     vd_last_counted_date data = Some ''2026-02-10'')"
proof -
  have h1: "valid_date (Date 2026 2 11)"
    by (simp add: valid_date_def days_in_month_def)
  have h2: "vd_last_counted_date counted_to_feb7 = Some ''2026-02-07''"
    by (simp add: counted_to_feb7_def)
  have h3: "fromisoformat ''2026-02-07'' = Inr (Date 2026 2 7)"
    by (simp add: date_defs)
  have h4: "sub_day (Date 2026 2 11) = Inr (Date 2026 2 10)"
    by (simp add: sub_day_def)
  have h5: "date_lt (Date 2026 2 7) (Date 2026 2 10)"
    by (simp add: date_lt_def)
  have h6: "\<forall>d\<in>set (gap_days (Date 2026 2 7) (Date 2026 2 11)).
      0 \<le> visitors_on scenario_sa ''example.org'' d"
    by (simp add: gap_days_feb7_feb11 visitors_on_def fetch_sa_visitors_for_date_def
        scenario_sa_def isoformat_def pad4_def pad2_def digit_char_def)
  from all_gap_days_finalized[OF h1 h2 h3 h4 h5 h6, of "''2026-02-11T06:00:00''"]
  obtain data fetched where
    r: "cmd_update scenario_sa (Date 2026 2 11) ''2026-02-11T06:00:00'' ''example.org''
          (Some counted_to_feb7) = Inr (data, fetched)"
    and c: "vd_cumulative data = Some (get_or (vd_cumulative counted_to_feb7) 0 +
          (\<Sum>d\<leftarrow>gap_days (Date 2026 2 7) (Date 2026 2 11). visitors_on scenario_sa ''example.org'' d))"
    and m: "\<forall>d\<in>set (gap_days (Date 2026 2 7) (Date 2026 2 11)).
          map_of (get_or (vd_daily_history data) []) (isoformat d) =
          Some (visitors_on scenario_sa ''example.org'' d)"
    and l: "vd_last_counted_date data = Some (isoformat (Date 2026 2 10))"
    by blast
  have c': "vd_cumulative data = Some 23914"
    using c by (simp add: gap_days_feb7_feb11 visitors_on_def fetch_sa_visitors_for_date_def
        scenario_sa_def isoformat_def pad4_def pad2_def digit_char_def counted_to_feb7_def)
  have m': "map_of (get_or (vd_daily_history data) []) ''2026-02-09'' = Some 15"
    using m by (simp add: gap_days_feb7_feb11 visitors_on_def fetch_sa_visitors_for_date_def
        scenario_sa_def isoformat_def pad4_def pad2_def digit_char_def)
  have l': "vd_last_counted_date data = Some ''2026-02-10''"
    using l by (simp add: isoformat_def pad4_def pad2_def digit_char_def)
  have h7: "visitors_on scenario_sa ''example.org'' (Date 2026 2 8) = 10"
    "visitors_on scenario_sa ''example.org'' (Date 2026 2 9) = 15"
    "visitors_on scenario_sa ''example.org'' (Date 2026 2 10) = 20"
    by (simp_all add: visitors_on_def fetch_sa_visitors_for_date_def
        scenario_sa_def isoformat_def pad4_def pad2_def digit_char_def)
  show ?thesis
    using h1 h3 h4 h5 h7 gap_days_feb7_feb11 r c' m' l' by blast
qed

subsection \<open>A failed request for a gap day\<close>

text \<open>
  C4. Let the request for a gap day fail, after the requests for the gap days \<open>before\<close> it
  succeeded. Then the run requests no gap day \<open>after\<close> the failed one: the days it
  requests are \<open>before\<close>, the failed day and today. The \<^verbatim>\<open>last_counted_date\<close> that it
  writes is the one it read, which is earlier than every day of \<open>before\<close>. The run still
  requests today and writes the whole document, with the counts of \<open>before\<close> added to
  \<^verbatim>\<open>cumulative\<close> and stored in \<^verbatim>\<open>daily_history\<close>.
\<close>

theorem gap_fetch_failure:
  assumes "valid_date today"
    and "vd_last_counted_date prev = Some lc" and "fromisoformat lc = Inr ld"
    and "gap_days ld today = before @ failed # after"
    and "\<forall>d\<in>set before. 0 \<le> visitors_on sa domain d"
    and "visitors_on sa domain failed < 0"
  shows "\<exists>data.
     cmd_update sa today now domain (Some prev) =
       Inr (data, map isoformat before @ [isoformat failed, isoformat today]) \<and>
     (\<forall>d\<in>set after.
        isoformat d \<notin> set (map isoformat before @ [isoformat failed, isoformat today])) \<and>
     vd_last_counted_date data = Some lc \<and>
     (\<forall>d\<in>set before. date_lt ld d) \<and>
     vd_cumulative data =
       Some (get_or (vd_cumulative prev) 0 + (\<Sum>d\<leftarrow>before. visitors_on sa domain d)) \<and>
     vd_daily_history data =
       Some (record_days sa domain before (get_or (vd_daily_history prev) [])) \<and>
     (\<forall>d\<in>set before.
        map_of (get_or (vd_daily_history data) []) (isoformat d) = Some (visitors_on sa domain d)) \<and>
     vd_today_visitors data =
       Some (if visitors_on sa domain today < 0 then get_or (vd_today_visitors prev) 0
             else visitors_on sa domain today) \<and>
     vd_count data =
       Some (get_or (vd_cumulative data) 0 + get_or (vd_today_visitors data) 0)"
proof -
  have vl: "valid_date ld" using assms(3) by (rule fromisoformat_valid)
  have p: "fromisoformat (start_last_counted today (load_data (Some prev))) = Inr ld"
    using assms(2,3) by simp
  have f: "finalized sa domain (gap_days ld today) = before"
    unfolding assms(4) using assms(5,6) by (rule finalized_split)
  have ne: "before \<noteq> gap_days ld today"
    unfolding assms(4) by simp
  have t: "take (Suc (length before)) (gap_days ld today) = before @ [failed]"
    unfolding assms(4) by simp
  have s: "set (gap_days ld today) = {d. valid_date d \<and> date_lt ld d \<and> date_lt d today}"
    using vl assms(1) by (rule set_gap_days)
  have b: "\<forall>d\<in>set before. valid_date d \<and> date_lt ld d"
    using s unfolding assms(4) by auto
  have dist: "distinct before"
    using distinct_gap_days[of ld today] unfolding assms(4) by simp
  have m: "\<forall>d\<in>set before.
      map_of (record_days sa domain before (get_or (vd_daily_history prev) [])) (isoformat d)
        = Some (visitors_on sa domain d)"
    using map_of_record_days[OF _ dist] b by blast
  have a: "\<forall>d\<in>set after.
      isoformat d \<notin> set (map isoformat before @ [isoformat failed, isoformat today])"
    using gap_days_after_not_fetched[OF vl assms(1,4)] by blast
  show ?thesis
    unfolding cmd_update_eq[OF assms(1) p] f t
    using ne assms(2) a b m by simp
qed

text \<open>
  The run of 11 February 2026 on a file counted to 7 February, when the request for
  9 February fails: 10 February is not requested.
\<close>

theorem gap_fetch_failure_witness:
  "valid_date (Date 2026 2 11) \<and>
   vd_last_counted_date counted_to_feb7 = Some ''2026-02-07'' \<and>
   fromisoformat ''2026-02-07'' = Inr (Date 2026 2 7) \<and>
   gap_days (Date 2026 2 7) (Date 2026 2 11) = [Date 2026 2 8] @ Date 2026 2 9 # [Date 2026 2 10] \<and>
   0 \<le> visitors_on outage_sa ''example.org'' (Date 2026 2 8) \<and>
   visitors_on outage_sa ''example.org'' (Date 2026 2 9) < 0 \<and>
   (\<exists>data.
     cmd_update outage_sa (Date 2026 2 11) ''2026-02-11T06:00:00'' ''example.org''
       (Some counted_to_feb7) = Inr (data, [''2026-02-08'', ''2026-02-09'', ''2026-02-11'']) \<and>
     vd_last_counted_date data = Some ''2026-02-07'' \<and>
     vd_cumulative data = Some 23879 \<and>
     vd_daily_history data = Some [(''2026-02-08'', 10)] \<and>
     vd_today_visitors data = Some 5)"
proof -
  have h2: "vd_last_counted_date counted_to_feb7 = Some ''2026-02-07''"
    by (simp add: counted_to_feb7_def)
  have h4: "gap_days (Date 2026 2 7) (Date 2026 2 11) =
      [Date 2026 2 8] @ Date 2026 2 9 # [Date 2026 2 10]"
    by (simp add: gap_days_feb7_feb11)
  have v: "visitors_on outage_sa ''example.org'' (Date 2026 2 8) = 10"
    "visitors_on outage_sa ''example.org'' (Date 2026 2 9) = - 1"
    "visitors_on outage_sa ''example.org'' (Date 2026 2 11) = 5"
    by (simp_all add: visitors_on_def fetch_sa_visitors_for_date_def outage_sa_def)
  have h5: "\<forall>d\<in>set [Date 2026 2 8]. 0 \<le> visitors_on outage_sa ''example.org'' d"
    by (simp add: v)
  have h6: "visitors_on outage_sa ''example.org'' (Date 2026 2 9) < 0"
    by (simp add: v)
  from gap_fetch_failure[OF valid_feb11 h2 parse_feb(1) h4 h5 h6, of "''2026-02-11T06:00:00''"]
  obtain data where
    r: "cmd_update outage_sa (Date 2026 2 11) ''2026-02-11T06:00:00'' ''example.org''
          (Some counted_to_feb7) =
        Inr (data, map isoformat [Date 2026 2 8] @ [isoformat (Date 2026 2 9), isoformat (Date 2026 2 11)])"
    and l: "vd_last_counted_date data = Some ''2026-02-07''"
    and c: "vd_cumulative data = Some (get_or (vd_cumulative counted_to_feb7) 0 +
          (\<Sum>d\<leftarrow>[Date 2026 2 8]. visitors_on outage_sa ''example.org'' d))"
    and h: "vd_daily_history data = Some (record_days outage_sa ''example.org'' [Date 2026 2 8]
          (get_or (vd_daily_history counted_to_feb7) []))"
    and t: "vd_today_visitors data =
       Some (if visitors_on outage_sa ''example.org'' (Date 2026 2 11) < 0
             then get_or (vd_today_visitors counted_to_feb7) 0
             else visitors_on outage_sa ''example.org'' (Date 2026 2 11))"
    by blast
  have r': "cmd_update outage_sa (Date 2026 2 11) ''2026-02-11T06:00:00'' ''example.org''
       (Some counted_to_feb7) = Inr (data, [''2026-02-08'', ''2026-02-09'', ''2026-02-11''])"
    using r by simp
  have c': "vd_cumulative data = Some 23879"
    using c by (simp add: v counted_to_feb7_def)
  have h': "vd_daily_history data = Some [(''2026-02-08'', 10)]"
    using h by (simp add: v record_days_def counted_to_feb7_def)
  have t': "vd_today_visitors data = Some 5"
    using t by (simp add: v)
  show ?thesis
    using valid_feb11 h2 parse_feb(1) h4 v(1) h6 r' l c' h' t' by auto
qed

subsection \<open>The run after a failed request\<close>

text \<open>
  C2 does not hold of the script. After the run above, \<^verbatim>\<open>daily_history\<close> holds 8 February
  with 10 visitors, \<^verbatim>\<open>cumulative\<close> includes them, and \<^verbatim>\<open>last_counted_date\<close> is still
  7 February. The next run starts again from 8 February: it requests that day a second
  time, replaces its stored count by the new answer, 12, and adds the 12 to a
  \<^verbatim>\<open>cumulative\<close> that already holds the 10. The message \<^verbatim>\<open>will retry next run\<close> of the
  script is about the failed day; the days finalized before it are retried with it.
\<close>

theorem refetch_after_abort:
  "cmd_update outage_sa (Date 2026 2 11) ''2026-02-11T06:00:00'' ''example.org''
     (Some counted_to_feb7) =
     Inr (\<lparr>vd_count = Some 23884, vd_cumulative = Some 23879, vd_today_visitors = Some 5,
           vd_last_counted_date = Some ''2026-02-07'', vd_domain = Some ''example.org'',
           vd_last_updated = Some ''2026-02-11T06:00:00'',
           vd_daily_history = Some [(''2026-02-08'', 10)]\<rparr>,
          [''2026-02-08'', ''2026-02-09'', ''2026-02-11''])
   \<and> cmd_update retry_sa (Date 2026 2 11) ''2026-02-11T07:00:00'' ''example.org''
     (Some \<lparr>vd_count = Some 23884, vd_cumulative = Some 23879, vd_today_visitors = Some 5,
           vd_last_counted_date = Some ''2026-02-07'', vd_domain = Some ''example.org'',
           vd_last_updated = Some ''2026-02-11T06:00:00'',
           vd_daily_history = Some [(''2026-02-08'', 10)]\<rparr>) =
     Inr (\<lparr>vd_count = Some 23933, vd_cumulative = Some 23926, vd_today_visitors = Some 7,
           vd_last_counted_date = Some ''2026-02-10'', vd_domain = Some ''example.org'',
           vd_last_updated = Some ''2026-02-11T07:00:00'',
           vd_daily_history =
             Some [(''2026-02-08'', 12), (''2026-02-09'', 15), (''2026-02-10'', 20)]\<rparr>,
          [''2026-02-08'', ''2026-02-09'', ''2026-02-10'', ''2026-02-11''])"
  by (simp add: outage_sa_def retry_sa_def counted_to_feb7_def run_defs date_defs)

subsection \<open>A failed request for today\<close>



subsection \<open>A negative count\<close>

text \<open>
  C10. \<^verbatim>\<open>cmd_update\<close> takes every negative result of a request for a failure. So a run
  cannot tell an answer with a negative \<^verbatim>\<open>visitors\<close> field from a failed request: it
  writes the same document, after the same requests, when every such answer is replaced
  by a failure. When the answer for a gap day is negative, the run requests no later gap
  day, adds only the days before it to \<^verbatim>\<open>cumulative\<close> and leaves \<^verbatim>\<open>last_counted_date\<close> as
  it was. When the answer for today is negative, the run writes the \<^verbatim>\<open>today_visitors\<close> of
  the data file it read, or 0 when the file has none.
\<close>

theorem negative_count_is_failure:
  "cmd_update (negative_as_failed sa) today now domain file = cmd_update sa today now domain file \<and>
   (valid_date today \<and> fromisoformat (start_last_counted today (load_data file)) = Inr ld \<and>
    gap_days ld today = before @ failed # after \<and>
    (\<forall>d\<in>set before. 0 \<le> visitors_on sa domain d) \<and>
    sa domain (isoformat failed) = Body (Some v) \<and> v < 0 \<longrightarrow>
      (\<exists>data. cmd_update sa today now domain file =
           Inr (data, map isoformat before @ [isoformat failed, isoformat today]) \<and>
         vd_cumulative data =
           Some (start_cumulative (load_data file) + (\<Sum>d\<leftarrow>before. visitors_on sa domain d)) \<and>
         vd_last_counted_date data = Some (start_last_counted today (load_data file)))) \<and>
   (valid_date today \<and> fromisoformat (start_last_counted today (load_data file)) = Inr ld \<and>
    sa domain (isoformat today) = Body (Some w) \<and> w < 0 \<longrightarrow>
      (\<exists>data fetched. cmd_update sa today now domain file = Inr (data, fetched) \<and>
         vd_today_visitors data = Some (get_or (vd_today_visitors (load_data file)) 0)))"
proof (intro conjI impI)
  have t: "(if fetch_sa_visitors_for_date (negative_as_failed sa) domain s < 0 then a
            else fetch_sa_visitors_for_date (negative_as_failed sa) domain s) =
           (if fetch_sa_visitors_for_date sa domain s < 0 then a
            else fetch_sa_visitors_for_date sa domain s)" for s and a :: int
    by (simp add: fetch_negative_as_failed)
  show "cmd_update (negative_as_failed sa) today now domain file =
      cmd_update sa today now domain file"
    unfolding cmd_update_def Let_def finalize_completed_negative_as_failed t by (rule refl)
next
  assume a: "valid_date today \<and> fromisoformat (start_last_counted today (load_data file)) = Inr ld \<and>
    gap_days ld today = before @ failed # after \<and>
    (\<forall>d\<in>set before. 0 \<le> visitors_on sa domain d) \<and>
    sa domain (isoformat failed) = Body (Some v) \<and> v < 0"
  then have neg: "visitors_on sa domain failed < 0"
    by (simp add: visitors_on_def fetch_sa_visitors_for_date_def)
  from a have g: "gap_days ld today = before @ failed # after" by simp
  have f: "finalized sa domain (gap_days ld today) = before"
    unfolding g using a neg by (intro finalized_split) auto
  have ne: "before \<noteq> gap_days ld today" unfolding g by simp
  have tk: "take (Suc (length before)) (gap_days ld today) = before @ [failed]"
    unfolding g by simp
  from a have c: "cmd_update sa today now domain file = Inr
       (\<lparr>vd_count = Some (start_cumulative (load_data file)
               + sum_list (map (visitors_on sa domain) (finalized sa domain (gap_days ld today)))
               + (if visitors_on sa domain today < 0
                  then get_or (vd_today_visitors (load_data file)) 0
                  else visitors_on sa domain today)),
           vd_cumulative = Some (start_cumulative (load_data file)
               + sum_list (map (visitors_on sa domain) (finalized sa domain (gap_days ld today)))),
           vd_today_visitors = Some (if visitors_on sa domain today < 0
                  then get_or (vd_today_visitors (load_data file)) 0
                  else visitors_on sa domain today),
           vd_last_counted_date = Some
             (if date_lt ld today \<and> finalized sa domain (gap_days ld today) = gap_days ld today
              then isoformat (projr (sub_day today))
              else start_last_counted today (load_data file)),
           vd_domain = Some domain,
           vd_last_updated = Some now,
           vd_daily_history = Some (record_days sa domain (finalized sa domain (gap_days ld today))
               (get_or (vd_daily_history (load_data file)) []))\<rparr>,
          map isoformat
            (take (Suc (length (finalized sa domain (gap_days ld today)))) (gap_days ld today))
          @ [isoformat today])"
    by (intro cmd_update_eq) simp_all
  show "\<exists>data. cmd_update sa today now domain file =
           Inr (data, map isoformat before @ [isoformat failed, isoformat today]) \<and>
         vd_cumulative data =
           Some (start_cumulative (load_data file) + (\<Sum>d\<leftarrow>before. visitors_on sa domain d)) \<and>
         vd_last_counted_date data = Some (start_last_counted today (load_data file))"
    unfolding c f tk using ne by simp
next
  assume a: "valid_date today \<and> fromisoformat (start_last_counted today (load_data file)) = Inr ld \<and>
    sa domain (isoformat today) = Body (Some w) \<and> w < 0"
  then have neg: "visitors_on sa domain today < 0"
    by (simp add: visitors_on_def fetch_sa_visitors_for_date_def)
  from a have v: "valid_date today"
    and p: "fromisoformat (start_last_counted today (load_data file)) = Inr ld" by simp_all
  show "\<exists>data fetched. cmd_update sa today now domain file = Inr (data, fetched) \<and>
         vd_today_visitors data = Some (get_or (vd_today_visitors (load_data file)) 0)"
    unfolding cmd_update_eq[OF v p] using neg by simp
qed

text \<open>
  A service that answers - 3 to every request, on 11 February 2026 with a file counted to
  7 February: 8 February ends the loop, and today keeps the 0 of the file.
\<close>

theorem negative_count_is_failure_witness:
  "valid_date (Date 2026 2 11) \<and>
   fromisoformat (start_last_counted (Date 2026 2 11) (load_data (Some counted_to_feb7))) =
     Inr (Date 2026 2 7) \<and>
   gap_days (Date 2026 2 7) (Date 2026 2 11) = [] @ Date 2026 2 8 # [Date 2026 2 9, Date 2026 2 10] \<and>
   negative_sa ''example.org'' (isoformat (Date 2026 2 8)) = Body (Some (- 3)) \<and>
   negative_sa ''example.org'' (isoformat (Date 2026 2 11)) = Body (Some (- 3)) \<and>
   (- 3 :: int) < 0 \<and>
   cmd_update (negative_as_failed negative_sa) (Date 2026 2 11) ''2026-02-11T06:00:00''
       ''example.org'' (Some counted_to_feb7) =
     cmd_update negative_sa (Date 2026 2 11) ''2026-02-11T06:00:00'' ''example.org''
       (Some counted_to_feb7) \<and>
   (\<exists>data. cmd_update negative_sa (Date 2026 2 11) ''2026-02-11T06:00:00'' ''example.org''
         (Some counted_to_feb7) = Inr (data, [''2026-02-08'', ''2026-02-11'']) \<and>
       vd_cumulative data = Some 23869 \<and>
       vd_last_counted_date data = Some ''2026-02-07'') \<and>
   (\<exists>data fetched. cmd_update negative_sa (Date 2026 2 11) ''2026-02-11T06:00:00''
         ''example.org'' (Some counted_to_feb7) = Inr (data, fetched) \<and>
       vd_today_visitors data = Some 0)"
proof -
  have h2: "fromisoformat (start_last_counted (Date 2026 2 11) (load_data (Some counted_to_feb7)))
      = Inr (Date 2026 2 7)"
    by (simp add: start_last_counted_def counted_to_feb7_def parse_feb)
  have h3: "gap_days (Date 2026 2 7) (Date 2026 2 11) =
      [] @ Date 2026 2 8 # [Date 2026 2 9, Date 2026 2 10]"
    by (simp add: gap_days_feb7_feb11)
  have h4: "negative_sa ''example.org'' (isoformat (Date 2026 2 8)) = Body (Some (- 3))"
    "negative_sa ''example.org'' (isoformat (Date 2026 2 11)) = Body (Some (- 3))"
    by (simp_all add: negative_sa_def)
  have s: "start_cumulative (load_data (Some counted_to_feb7)) = 23869"
    "start_last_counted (Date 2026 2 11) (load_data (Some counted_to_feb7)) = ''2026-02-07''"
    "get_or (vd_today_visitors (load_data (Some counted_to_feb7))) 0 = 0"
    by (simp_all add: start_cumulative_def start_last_counted_def counted_to_feb7_def)
  note w = negative_count_is_failure[of negative_sa "Date 2026 2 11" "''2026-02-11T06:00:00''"
      "''example.org''" "Some counted_to_feb7" "Date 2026 2 7" "[]" "Date 2026 2 8"
      "[Date 2026 2 9, Date 2026 2 10]" "- 3" "- 3"]
  have e: "cmd_update (negative_as_failed negative_sa) (Date 2026 2 11) ''2026-02-11T06:00:00''
       ''example.org'' (Some counted_to_feb7) =
     cmd_update negative_sa (Date 2026 2 11) ''2026-02-11T06:00:00'' ''example.org''
       (Some counted_to_feb7)"
    using w by (rule conjunct1)
  have g: "\<exists>data. cmd_update negative_sa (Date 2026 2 11) ''2026-02-11T06:00:00'' ''example.org''
         (Some counted_to_feb7) = Inr (data, [''2026-02-08'', ''2026-02-11'']) \<and>
       vd_cumulative data = Some 23869 \<and>
       vd_last_counted_date data = Some ''2026-02-07''"
    using w[THEN conjunct2, THEN conjunct1] valid_feb11 h2 h3 h4 unfolding s by simp
  have t: "\<exists>data fetched. cmd_update negative_sa (Date 2026 2 11) ''2026-02-11T06:00:00''
         ''example.org'' (Some counted_to_feb7) = Inr (data, fetched) \<and>
       vd_today_visitors data = Some 0"
    using w[THEN conjunct2, THEN conjunct2] valid_feb11 h2 h4 unfolding s by simp
  show ?thesis
    using valid_feb11 h2 h3 h4 e g t by simp
qed

subsection \<open>The cumulative total from run to run\<close>



subsection \<open>Two runs on the same day\<close>

text \<open>
  C3, as stated, fails. The document that \<^verbatim>\<open>cmd_update\<close> writes has a field \<^verbatim>\<open>count\<close>, the
  sum of \<^verbatim>\<open>cumulative\<close> and \<^verbatim>\<open>today_visitors\<close>. When the service reports 5 visitors for
  today in the first run and 7 in the second, \<^verbatim>\<open>count\<close> is 23919 after the first run and
  23921 after the second: a third field differs.
\<close>

theorem same_day_rerun_counterexample:
  "same_day_first =
     Inr (\<lparr>vd_count = Some 23919, vd_cumulative = Some 23914, vd_today_visitors = Some 5,
           vd_last_counted_date = Some ''2026-02-10'', vd_domain = Some ''example.org'',
           vd_last_updated = Some ''2026-02-11T06:00:00'',
           vd_daily_history =
             Some [(''2026-02-08'', 10), (''2026-02-09'', 15), (''2026-02-10'', 20)]\<rparr>,
          [''2026-02-11''])
   \<and> same_day_second =
     Inr (\<lparr>vd_count = Some 23921, vd_cumulative = Some 23914, vd_today_visitors = Some 7,
           vd_last_counted_date = Some ''2026-02-10'', vd_domain = Some ''example.org'',
           vd_last_updated = Some ''2026-02-11T07:00:00'',
           vd_daily_history =
             Some [(''2026-02-08'', 10), (''2026-02-09'', 15), (''2026-02-10'', 20)]\<rparr>,
          [''2026-02-11''])
   \<and> vd_count (fst (projr same_day_second)) \<noteq> vd_count (fst (projr same_day_first))"
proof -
  have a: "same_day_first =
     Inr (\<lparr>vd_count = Some 23919, vd_cumulative = Some 23914, vd_today_visitors = Some 5,
           vd_last_counted_date = Some ''2026-02-10'', vd_domain = Some ''example.org'',
           vd_last_updated = Some ''2026-02-11T06:00:00'',
           vd_daily_history =
             Some [(''2026-02-08'', 10), (''2026-02-09'', 15), (''2026-02-10'', 20)]\<rparr>,
          [''2026-02-11''])"
    by (simp add: same_day_first_def scenario_sa_def counted_to_feb10_def run_defs date_defs)
  have b: "same_day_second =
     Inr (\<lparr>vd_count = Some 23921, vd_cumulative = Some 23914, vd_today_visitors = Some 7,
           vd_last_counted_date = Some ''2026-02-10'', vd_domain = Some ''example.org'',
           vd_last_updated = Some ''2026-02-11T07:00:00'',
           vd_daily_history =
             Some [(''2026-02-08'', 10), (''2026-02-09'', 15), (''2026-02-10'', 20)]\<rparr>,
          [''2026-02-11''])"
    unfolding same_day_second_def a
    by (simp add: retry_sa_def run_defs date_defs)
  show ?thesis
    unfolding a b by simp
qed

text \<open>
  C3, amended. Let the \<^verbatim>\<open>last_counted_date\<close> of the data file be yesterday or today.
  Then two runs on that day, for the same domain, request today only, and the second
  leaves \<^verbatim>\<open>cumulative\<close> and \<^verbatim>\<open>daily_history\<close> as the first wrote them, which is as the file
  had them. The two documents differ at most in \<^verbatim>\<open>today_visitors\<close>, \<^verbatim>\<open>last_updated\<close> and
  \<^verbatim>\<open>count\<close>, which is \<^verbatim>\<open>cumulative\<close> plus \<^verbatim>\<open>today_visitors\<close>.
\<close>

theorem same_day_rerun:
  assumes "valid_date today"
    and "vd_last_counted_date prev = Some lc" and "fromisoformat lc = Inr ld"
    and "ld = today \<or> sub_day today = Inr ld"
  shows "\<exists>data1 data2.
     cmd_update sa1 today now1 domain (Some prev) = Inr (data1, [isoformat today]) \<and>
     cmd_update sa2 today now2 domain (Some data1) = Inr (data2, [isoformat today]) \<and>
     vd_cumulative data2 = vd_cumulative data1 \<and>
     vd_daily_history data2 = vd_daily_history data1 \<and>
     vd_cumulative data1 = Some (get_or (vd_cumulative prev) 0) \<and>
     vd_daily_history data1 = Some (get_or (vd_daily_history prev) []) \<and>
     data2 = data1\<lparr>vd_today_visitors := vd_today_visitors data2,
                    vd_last_updated := Some now2,
                    vd_count := vd_count data2\<rparr> \<and>
     vd_count data2 =
       Some (get_or (vd_cumulative data2) 0 + get_or (vd_today_visitors data2) 0)"
proof -
  have g: "gap_days ld today = []"
    using assms(1,4) by (auto simp: gap_days_yesterday gap_days_Nil date_lt_irrefl)
  have vl: "valid_date ld" using assms(3) by (rule fromisoformat_valid)
  let ?lc1 = "if date_lt ld today then isoformat (projr (sub_day today)) else lc"
  have l1: "?lc1 = (if date_lt ld today then isoformat ld else lc)"
    using assms(4) by (auto simp: date_lt_irrefl)
  have p1: "fromisoformat ?lc1 = Inr ld"
    unfolding l1 using assms(3) vl by (simp add: fromisoformat_isoformat)
  have p: "fromisoformat (start_last_counted today (load_data (Some prev))) = Inr ld"
    using assms(2,3) by simp
  obtain data1 where r1: "cmd_update sa1 today now1 domain (Some prev) = Inr (data1, [isoformat today])"
    and d1: "data1 = \<lparr>vd_count = Some (get_or (vd_cumulative prev) 0
               + (if visitors_on sa1 domain today < 0 then get_or (vd_today_visitors prev) 0
                  else visitors_on sa1 domain today)),
           vd_cumulative = Some (get_or (vd_cumulative prev) 0),
           vd_today_visitors = Some (if visitors_on sa1 domain today < 0
                  then get_or (vd_today_visitors prev) 0 else visitors_on sa1 domain today),
           vd_last_counted_date = Some ?lc1,
           vd_domain = Some domain,
           vd_last_updated = Some now1,
           vd_daily_history = Some (get_or (vd_daily_history prev) [])\<rparr>"
    using cmd_update_eq[OF assms(1) p, of sa1 now1 domain] assms(2) unfolding g by simp
  have p2: "fromisoformat (start_last_counted today (load_data (Some data1))) = Inr ld"
    using p1 unfolding d1 by (simp add: start_last_counted_def)
  have s2: "start_cumulative (load_data (Some data1)) = get_or (vd_cumulative prev) 0"
    unfolding d1 by (simp add: start_cumulative_def)
  show ?thesis
    using r1 cmd_update_eq[OF assms(1) p2, of sa2 now2 domain] unfolding g s2
    by (simp add: d1 start_last_counted_def)
qed

text \<open>The two runs of 11 February 2026 on the file counted to 10 February.\<close>

theorem same_day_rerun_witness:
  "valid_date (Date 2026 2 11) \<and>
   vd_last_counted_date counted_to_feb10 = Some ''2026-02-10'' \<and>
   fromisoformat ''2026-02-10'' = Inr (Date 2026 2 10) \<and>
   sub_day (Date 2026 2 11) = Inr (Date 2026 2 10) \<and>
   (\<exists>data1 data2.
      cmd_update scenario_sa (Date 2026 2 11) ''2026-02-11T06:00:00'' ''example.org''
        (Some counted_to_feb10) = Inr (data1, [''2026-02-11'']) \<and>
      cmd_update retry_sa (Date 2026 2 11) ''2026-02-11T07:00:00'' ''example.org''
        (Some data1) = Inr (data2, [''2026-02-11'']) \<and>
      vd_cumulative data2 = Some 23914 \<and>
      vd_cumulative data1 = Some 23914 \<and>
      vd_daily_history data2 = vd_daily_history data1)"
proof -
  have h2: "vd_last_counted_date counted_to_feb10 = Some ''2026-02-10''"
    by (simp add: counted_to_feb10_def)
  have h4: "sub_day (Date 2026 2 11) = Inr (Date 2026 2 10)"
    by (simp add: sub_day_def)
  then have h4': "Date 2026 2 10 = Date 2026 2 11 \<or> sub_day (Date 2026 2 11) = Inr (Date 2026 2 10)"
    by simp
  have c: "get_or (vd_cumulative counted_to_feb10) 0 = 23914"
    by (simp add: counted_to_feb10_def)
  from same_day_rerun[OF valid_feb11 h2 parse_feb(2) h4', of scenario_sa "''2026-02-11T06:00:00''"
      "''example.org''" retry_sa "''2026-02-11T07:00:00''"]
  obtain data1 data2 where
    "cmd_update scenario_sa (Date 2026 2 11) ''2026-02-11T06:00:00'' ''example.org''
        (Some counted_to_feb10) = Inr (data1, [isoformat (Date 2026 2 11)])"
    and "cmd_update retry_sa (Date 2026 2 11) ''2026-02-11T07:00:00'' ''example.org''
        (Some data1) = Inr (data2, [isoformat (Date 2026 2 11)])"
    and "vd_cumulative data2 = vd_cumulative data1"
    and "vd_daily_history data2 = vd_daily_history data1"
    and "vd_cumulative data1 = Some (get_or (vd_cumulative counted_to_feb10) 0)"
    by (elim exE conjE) (rule that)
  then show ?thesis
    using valid_feb11 h2 parse_feb(2) h4 c by auto
qed

subsection \<open>Statistics of the history\<close>






end
